theory Spec2Isabelle
  imports Main
begin

section \<open>The Seven Gates cellular automaton (seven_gates.py)\<close>

text \<open>
  A shallow embedding of \<^verbatim>\<open>src/python/seven_gates.py\<close>. Python integers are
  unbounded, so they are \<open>int\<close>; Python's \<^verbatim>\<open>%\<close> on integers is the floored
  modulo, which is \<open>mod\<close> on \<open>int\<close> for a non-zero divisor and raises
  ZeroDivisionError for a zero one. Every list read goes through \<open>list_index\<close>, which
  raises IndexError out of range and counts negative indices from the end, as Python does.
\<close>

subsection \<open>Errors and Python primitives\<close>

datatype py_error = IndexError | ZeroDivisionError

text \<open>\<^verbatim>\<open>xs[i]\<close> on a Python list or string.\<close>

definition list_index :: "'a list \<Rightarrow> int \<Rightarrow> py_error + 'a" where
  "list_index xs i =
     (if 0 \<le> i \<and> i < int (length xs) then Inr (xs ! nat i)
      else if i < 0 \<and> - int (length xs) \<le> i then Inr (xs ! nat (int (length xs) + i))
      else Inl IndexError)"

text \<open>\<^verbatim>\<open>range(n)\<close>: the integers \<open>0, ..., n - 1\<close>, none when \<open>n \<le> 0\<close>.\<close>

definition py_range :: "int \<Rightarrow> int list" where
  "py_range n = map int [0..<nat n]"

text \<open>
  A comprehension or a \<^verbatim>\<open>for\<close> loop that appends one result for each element, in
  order, and stops at the first element whose body raises.
\<close>

fun for_each :: "('a \<Rightarrow> py_error + 'b) \<Rightarrow> 'a list \<Rightarrow> py_error + 'b list" where
  "for_each body [] = Inr []"
| "for_each body (x # xs) =
     (case body x of
        Inl e \<Rightarrow> Inl e
      | Inr y \<Rightarrow> (case for_each body xs of Inl e \<Rightarrow> Inl e | Inr ys \<Rightarrow> Inr (y # ys)))"


subsection \<open>Module constants\<close>

definition STATE_RANGE :: int where
  "STATE_RANGE = 7"

definition ACTIVE_THRESHOLD :: int where
  "ACTIVE_THRESHOLD = 4"



subsection \<open>The state and its operations\<close>

text \<open>\<^verbatim>\<open>_wrap(value, max_value)\<close>: \<^verbatim>\<open>value % max_value\<close>.\<close>

definition wrap :: "int \<Rightarrow> int \<Rightarrow> py_error + int" where
  "wrap v max_value = (if max_value = 0 then Inl ZeroDivisionError else Inr (v mod max_value))"

record AutomatonState =
  width :: int
  height :: int
  cells :: "int list list"

text \<open>\<^verbatim>\<open>self.cells[r][c]\<close>: the row is read first, then the column in it.\<close>

definition cell_at :: "AutomatonState \<Rightarrow> int \<Rightarrow> int \<Rightarrow> py_error + int" where
  "cell_at self r c =
     (case list_index (cells self) r of
        Inl e \<Rightarrow> Inl e
      | Inr cells_r \<Rightarrow> list_index cells_r c)"

text \<open>
  \<^verbatim>\<open>neighbor_coords\<close> is a generator: it is modelled by the list of what each of its four
  iterations produces, a coordinate pair or the error raised while computing it (the row
  is wrapped before the column). A consumer that meets an error stops there.
\<close>

definition neighbor_coord ::
  "AutomatonState \<Rightarrow> int \<Rightarrow> int \<Rightarrow> int \<times> int \<Rightarrow> py_error + int \<times> int" where
  "neighbor_coord self row col delta =
     (case wrap (row + fst delta) (height self) of
        Inl e \<Rightarrow> Inl e
      | Inr r \<Rightarrow> (case wrap (col + snd delta) (width self) of
                   Inl e \<Rightarrow> Inl e
                 | Inr c \<Rightarrow> Inr (r, c)))"

definition neighbor_coords ::
  "AutomatonState \<Rightarrow> int \<Rightarrow> int \<Rightarrow> (py_error + int \<times> int) list" where
  "neighbor_coords self row col =
     map (neighbor_coord self row col) [(- 1, 0), (1, 0), (0, - 1), (0, 1)]"

text \<open>
  \<^verbatim>\<open>sum(1 for r, c in self.neighbor_coords(row, col) if self.cells[r][c] >= ACTIVE_THRESHOLD)\<close>,
  consuming the generator element by element.
\<close>

fun active_neighbors ::
  "AutomatonState \<Rightarrow> (py_error + int \<times> int) list \<Rightarrow> py_error + int" where
  "active_neighbors self [] = Inr 0"
| "active_neighbors self (Inl e # rest) = Inl e"
| "active_neighbors self (Inr (r, c) # rest) =
     (case cell_at self r c of
        Inl e \<Rightarrow> Inl e
      | Inr v \<Rightarrow> (case active_neighbors self rest of
                   Inl e \<Rightarrow> Inl e
                 | Inr n \<Rightarrow> Inr ((if ACTIVE_THRESHOLD \<le> v then 1 else 0) + n)))"

text \<open>The \<^verbatim>\<open>if\<close>/\<^verbatim>\<open>elif\<close>/\<^verbatim>\<open>else\<close> chain of \<^verbatim>\<open>step\<close>: the value appended for one cell.\<close>

definition next_value :: "int \<Rightarrow> int \<Rightarrow> int" where
  "next_value current active =
     (if 2 \<le> active then (current + 1) mod STATE_RANGE
      else if active = 0 then (current - 1) mod STATE_RANGE
      else current)"

text \<open>The body of the inner loop of \<^verbatim>\<open>step\<close>, for one \<open>(row, col)\<close>.\<close>

definition step_cell :: "AutomatonState \<Rightarrow> int \<Rightarrow> int \<Rightarrow> py_error + int" where
  "step_cell self row col =
     (case cell_at self row col of
        Inl e \<Rightarrow> Inl e
      | Inr current \<Rightarrow>
          (case active_neighbors self (neighbor_coords self row col) of
             Inl e \<Rightarrow> Inl e
           | Inr active \<Rightarrow> Inr (next_value current active)))"

text \<open>The body of the outer loop: one \<^verbatim>\<open>next_row\<close>.\<close>

definition step_row :: "AutomatonState \<Rightarrow> int \<Rightarrow> py_error + int list" where
  "step_row self row = for_each (step_cell self row) (py_range (width self))"

definition step :: "AutomatonState \<Rightarrow> py_error + AutomatonState" where
  "step self =
     (case for_each (step_row self) (py_range (height self)) of
        Inl e \<Rightarrow> Inl e
      | Inr next_cells \<Rightarrow>
          Inr \<lparr>width = width self, height = height self, cells = next_cells\<rparr>)"



text \<open>
  \<^verbatim>\<open>simulate\<close>: the loop \<^verbatim>\<open>for _ in range(steps): state = state.step()\<close> runs
  \<open>nat steps\<close> times, that is not at all for \<open>steps \<le> 0\<close>.
\<close>

fun simulate_loop :: "nat \<Rightarrow> AutomatonState \<Rightarrow> py_error + AutomatonState" where
  "simulate_loop 0 state = Inr state"
| "simulate_loop (Suc n) state =
     (case step state of Inl e \<Rightarrow> Inl e | Inr state' \<Rightarrow> simulate_loop n state')"

definition simulate :: "AutomatonState \<Rightarrow> int \<Rightarrow> py_error + AutomatonState" where
  "simulate initial steps = simulate_loop (nat steps) initial"

subsection \<open>The Grid invariant and the specification's reading of the operations\<close>

text \<open>
  The data model's invariant: positive dimensions, \<open>height\<close> rows of \<open>width\<close> columns,
  every value in \<open>[0, 7)\<close>.
\<close>

definition cells_in_range :: "AutomatonState \<Rightarrow> bool" where
  "cells_in_range g \<longleftrightarrow> (\<forall>row \<in> set (cells g). \<forall>v \<in> set row. 0 \<le> v \<and> v < 7)"

definition rectangular :: "AutomatonState \<Rightarrow> bool" where
  "rectangular g \<longleftrightarrow>
     0 < width g \<and> 0 < height g \<and> length (cells g) = nat (height g) \<and>
     (\<forall>row \<in> set (cells g). length row = nat (width g))"

definition well_formed :: "AutomatonState \<Rightarrow> bool" where
  "well_formed g \<longleftrightarrow> rectangular g \<and> cells_in_range g"

text \<open>The value stored at an in-range coordinate.\<close>

definition val :: "AutomatonState \<Rightarrow> int \<Rightarrow> int \<Rightarrow> int" where
  "val g r c = cells g ! nat r ! nat c"

text \<open>
  The specification's four neighbours, north, south, west and east, with the
  non-negative modulo, and its count of the active ones among them.
\<close>

definition spec_neighbors :: "AutomatonState \<Rightarrow> int \<Rightarrow> int \<Rightarrow> (int \<times> int) list" where
  "spec_neighbors g row col =
     [((row - 1) mod height g, col), ((row + 1) mod height g, col),
      (row, (col - 1) mod width g), (row, (col + 1) mod width g)]"

definition spec_active_count :: "AutomatonState \<Rightarrow> int \<Rightarrow> int \<Rightarrow> int" where
  "spec_active_count g row col =
     int (length (filter (\<lambda>(r, c). 4 \<le> val g r c) (spec_neighbors g row col)))"

text \<open>
  The specification's transition rule, with the modulo written out by cases: band 6
  incremented is 0, band 0 decremented is 6.
\<close>

definition spec_next_state :: "int \<Rightarrow> int \<Rightarrow> int" where
  "spec_next_state current active_count =
     (if 2 \<le> active_count then (if current = 6 then 0 else current + 1)
      else if active_count = 0 then (if current = 0 then 6 else current - 1)
      else current)"

text \<open>
  The grid that \<^verbatim>\<open>step\<close> builds from a rectangular grid, written without the error
  plumbing: the transition of each cell from its value and the count of its active
  neighbours in the input grid.
\<close>

definition next_cells_of :: "AutomatonState \<Rightarrow> int list list" where
  "next_cells_of g =
     map (\<lambda>row. map (\<lambda>col. next_value (val g row col) (spec_active_count g row col))
                   (py_range (width g)))
         (py_range (height g))"

text \<open>
  The specification's simulation: the \<open>n\<close>-fold application of the stepper, each
  output being the next input (the last application is the outermost one).
\<close>

fun spec_iterate :: "nat \<Rightarrow> AutomatonState \<Rightarrow> py_error + AutomatonState" where
  "spec_iterate 0 g = Inr g"
| "spec_iterate (Suc n) g =
     (case spec_iterate n g of Inl e \<Rightarrow> Inl e | Inr g' \<Rightarrow> step g')"

subsection \<open>Sample grids\<close>

text \<open>A well-formed grid of three columns and two rows, used to instantiate the theorems.\<close>

definition grid_a :: AutomatonState where
  "grid_a = \<lparr>width = 3, height = 2, cells = [[0, 4, 6], [5, 1, 3]]\<rparr>"

text \<open>A second one, which agrees with the first on the top row and at \<open>(1, 0)\<close> only.\<close>

definition grid_b :: AutomatonState where
  "grid_b = \<lparr>width = 3, height = 2, cells = [[0, 4, 6], [5, 2, 0]]\<rparr>"

subsection \<open>Reading a rectangular grid\<close>

lemma for_each_Inr:
  "(\<And>x. x \<in> set xs \<Longrightarrow> body x = Inr (f x)) \<Longrightarrow> for_each body xs = Inr (map f xs)"
  by (induction xs) auto

lemma set_py_range: "set (py_range n) = {0..<n}"
proof (rule set_eqI)
  fix x
  have img: "set (py_range n) = int ` {0..<nat n}"
    by (simp add: py_range_def)
  show "x \<in> set (py_range n) \<longleftrightarrow> x \<in> {0..<n}"
  proof
    assume "x \<in> set (py_range n)"
    with img obtain k where "k < nat n" "x = int k" by auto
    then show "x \<in> {0..<n}" by simp
  next
    assume "x \<in> {0..<n}"
    then have "x = int (nat x)" "nat x \<in> {0..<nat n}" by simp_all
    then have "x \<in> int ` {0..<nat n}" by (rule image_eqI)
    with img show "x \<in> set (py_range n)" by simp
  qed
qed

lemma length_py_range: "length (py_range n) = nat n"
  by (simp add: py_range_def)

lemma nth_py_range: "i < nat n \<Longrightarrow> py_range n ! i = int i"
  by (simp add: py_range_def)

lemma list_index_in:
  "0 \<le> i \<Longrightarrow> i < int (length xs) \<Longrightarrow> list_index xs i = Inr (xs ! nat i)"
  by (simp add: list_index_def)

lemma cell_at_rect:
  assumes "rectangular g" "0 \<le> r" "r < height g" "0 \<le> c" "c < width g"
  shows "cell_at g r c = Inr (val g r c)"
proof -
  from assms have len: "length (cells g) = nat (height g)"
    and rows: "\<forall>row \<in> set (cells g). length row = nat (width g)"
    by (simp_all add: rectangular_def)
  from assms len have r: "nat r < length (cells g)" by simp
  then have "cells g ! nat r \<in> set (cells g)" by simp
  with rows have "length (cells g ! nat r) = nat (width g)" by blast
  with assms have c: "c < int (length (cells g ! nat r))" by simp
  from assms len have "list_index (cells g) r = Inr (cells g ! nat r)"
    by (intro list_index_in) simp_all
  moreover from assms c have "list_index (cells g ! nat r) c = Inr (cells g ! nat r ! nat c)"
    by (intro list_index_in) simp_all
  ultimately show ?thesis by (simp add: cell_at_def val_def)
qed

lemma neighbor_coords_rect:
  assumes "0 \<le> row" "row < height g" "0 \<le> col" "col < width g"
  shows "neighbor_coords g row col = map Inr (spec_neighbors g row col)"
  using assms by (simp add: neighbor_coords_def neighbor_coord_def wrap_def spec_neighbors_def)

lemma active_neighbors_Inr:
  "(\<And>r c. (r, c) \<in> set ps \<Longrightarrow> cell_at g r c = Inr (val g r c)) \<Longrightarrow>
   active_neighbors g (map Inr ps) =
     Inr (int (length (filter (\<lambda>(r, c). 4 \<le> val g r c) ps)))"
  by (induction ps) (auto simp: ACTIVE_THRESHOLD_def)

lemma spec_neighbors_in_range:
  assumes "0 \<le> row" "row < height g" "0 \<le> col" "col < width g" "(r, c) \<in> set (spec_neighbors g row col)"
  shows "0 \<le> r \<and> r < height g \<and> 0 \<le> c \<and> c < width g"
  using assms by (auto simp: spec_neighbors_def)

subsection \<open>One step on a rectangular grid\<close>

lemma spec_active_count_bounds:
  "0 \<le> spec_active_count g row col \<and> spec_active_count g row col \<le> 4"
proof -
  have "length (filter (\<lambda>(r, c). 4 \<le> val g r c) (spec_neighbors g row col))
          \<le> length (spec_neighbors g row col)"
    by (rule length_filter_le)
  also have "\<dots> = 4" by (simp add: spec_neighbors_def)
  finally show ?thesis by (simp add: spec_active_count_def)
qed

lemma step_cell_rect:
  assumes "rectangular g" "0 \<le> row" "row < height g" "0 \<le> col" "col < width g"
  shows "step_cell g row col = Inr (next_value (val g row col) (spec_active_count g row col))"
proof -
  have cur: "cell_at g row col = Inr (val g row col)"
    using assms by (rule cell_at_rect)
  have nb: "neighbor_coords g row col = map Inr (spec_neighbors g row col)"
    using assms(2-5) by (rule neighbor_coords_rect)
  have "active_neighbors g (map Inr (spec_neighbors g row col)) =
          Inr (int (length (filter (\<lambda>(r, c). 4 \<le> val g r c) (spec_neighbors g row col))))"
  proof (rule active_neighbors_Inr)
    fix r c assume "(r, c) \<in> set (spec_neighbors g row col)"
    with assms(2-5) have "0 \<le> r \<and> r < height g \<and> 0 \<le> c \<and> c < width g"
      by (rule spec_neighbors_in_range)
    with assms(1) show "cell_at g r c = Inr (val g r c)"
      by (simp add: cell_at_rect)
  qed
  with cur nb show ?thesis
    by (simp add: step_cell_def spec_active_count_def)
qed

lemma step_row_rect:
  assumes "rectangular g" "0 \<le> row" "row < height g"
  shows "step_row g row =
           Inr (map (\<lambda>col. next_value (val g row col) (spec_active_count g row col))
                    (py_range (width g)))"
  unfolding step_row_def
proof (rule for_each_Inr)
  fix col assume "col \<in> set (py_range (width g))"
  then have "0 \<le> col" "col < width g" by (simp_all add: set_py_range)
  with assms show "step_cell g row col =
      Inr (next_value (val g row col) (spec_active_count g row col))"
    by (simp add: step_cell_rect)
qed

lemma step_rect:
  assumes "rectangular g"
  shows "step g = Inr \<lparr>width = width g, height = height g, cells = next_cells_of g\<rparr>"
proof -
  have "for_each (step_row g) (py_range (height g)) = Inr (next_cells_of g)"
    unfolding next_cells_of_def
  proof (rule for_each_Inr)
    fix row assume "row \<in> set (py_range (height g))"
    then have "0 \<le> row" "row < height g" by (simp_all add: set_py_range)
    with assms show "step_row g row =
        Inr (map (\<lambda>col. next_value (val g row col) (spec_active_count g row col))
                 (py_range (width g)))"
      by (rule step_row_rect)
  qed
  then show ?thesis by (simp add: step_def)
qed

lemma next_cells_of_nth:
  assumes "0 \<le> row" "row < height g" "0 \<le> col" "col < width g"
  shows "next_cells_of g ! nat row ! nat col =
           next_value (val g row col) (spec_active_count g row col)"
proof -
  from assms have r: "nat row < nat (height g)" and c: "nat col < nat (width g)" by simp_all
  from r have "next_cells_of g ! nat row =
      map (\<lambda>col. next_value (val g row col) (spec_active_count g row col)) (py_range (width g))"
    using assms(1) by (simp add: next_cells_of_def length_py_range nth_py_range)
  with c assms(3) show ?thesis
    by (simp add: length_py_range nth_py_range)
qed

lemma rectangular_next:
  assumes "rectangular g"
  shows "rectangular \<lparr>width = width g, height = height g, cells = next_cells_of g\<rparr>"
  using assms by (auto simp: rectangular_def next_cells_of_def length_py_range)

lemma next_value_spec:
  assumes "0 \<le> current" "current < 7"
  shows "next_value current n = spec_next_state current n"
  using assms by (simp add: next_value_def spec_next_state_def STATE_RANGE_def)

lemma next_value_range:
  assumes "0 \<le> current" "current < 7"
  shows "0 \<le> next_value current n \<and> next_value current n < 7"
  using assms by (simp add: next_value_def STATE_RANGE_def)

lemma val_in_range:
  assumes "well_formed g" "0 \<le> r" "r < height g" "0 \<le> c" "c < width g"
  shows "0 \<le> val g r c \<and> val g r c < 7"
proof -
  from assms have len: "length (cells g) = nat (height g)"
    and rows: "\<forall>row \<in> set (cells g). length row = nat (width g)"
    and rng: "\<forall>row \<in> set (cells g). \<forall>v \<in> set row. 0 \<le> v \<and> v < 7"
    by (simp_all add: well_formed_def rectangular_def cells_in_range_def)
  from assms len have "nat r < length (cells g)" by simp
  then have mem: "cells g ! nat r \<in> set (cells g)" by simp
  with rows assms have "nat c < length (cells g ! nat r)" by simp
  then have "cells g ! nat r ! nat c \<in> set (cells g ! nat r)" by simp
  with rng mem show ?thesis unfolding val_def by blast
qed

lemma cells_in_range_next:
  assumes "well_formed g"
  shows "cells_in_range \<lparr>width = width g, height = height g, cells = next_cells_of g\<rparr>"
proof -
  { fix row col assume "row \<in> set (py_range (height g))" "col \<in> set (py_range (width g))"
    then have "0 \<le> row" "row < height g" "0 \<le> col" "col < width g"
      by (simp_all add: set_py_range)
    with assms have "0 \<le> val g row col \<and> val g row col < 7" by (rule val_in_range)
    then have "0 \<le> next_value (val g row col) (spec_active_count g row col) \<and>
               next_value (val g row col) (spec_active_count g row col) < 7"
      by (simp add: next_value_range) }
  then show ?thesis
    by (auto simp: cells_in_range_def next_cells_of_def)
qed

lemma well_formed_next:
  assumes "well_formed g"
  shows "well_formed \<lparr>width = width g, height = height g, cells = next_cells_of g\<rparr>"
  using assms rectangular_next cells_in_range_next by (simp add: well_formed_def)

subsection \<open>Steps and simulations of well-formed grids\<close>

lemma step_well_formed:
  assumes "well_formed g"
  shows "\<exists>g'. step g = Inr g' \<and> well_formed g' \<and> width g' = width g \<and> height g' = height g"
proof -
  from assms have "rectangular g" by (simp add: well_formed_def)
  then have "step g = Inr \<lparr>width = width g, height = height g, cells = next_cells_of g\<rparr>"
    by (rule step_rect)
  moreover from assms
  have "well_formed \<lparr>width = width g, height = height g, cells = next_cells_of g\<rparr>"
    by (rule well_formed_next)
  ultimately show ?thesis by simp
qed

lemma simulate_loop_well_formed:
  "well_formed g \<Longrightarrow>
     \<exists>g'. simulate_loop n g = Inr g' \<and> well_formed g' \<and>
          width g' = width g \<and> height g' = height g"
proof (induction n arbitrary: g)
  case 0
  then show ?case by simp
next
  case (Suc n)
  from step_well_formed [OF Suc.prems] obtain g1
    where g1: "step g = Inr g1" "well_formed g1" "width g1 = width g" "height g1 = height g"
    by blast
  from Suc.IH [OF g1(2)] obtain g2
    where "simulate_loop n g1 = Inr g2" "well_formed g2"
      "width g2 = width g1" "height g2 = height g1"
    by blast
  with g1 show ?case by simp
qed

lemma simulate_loop_snoc:
  "simulate_loop (Suc n) g =
     (case simulate_loop n g of Inl e \<Rightarrow> Inl e | Inr g' \<Rightarrow> step g')"
proof (induction n arbitrary: g)
  case 0
  show ?case by (simp split: sum.splits)
next
  case (Suc n)
  show ?case
  proof (cases "step g")
    case (Inl e)
    then show ?thesis by simp
  next
    case (Inr g1)
    have "simulate_loop (Suc (Suc n)) g = simulate_loop (Suc n) g1"
      using Inr by simp
    also have "\<dots> = (case simulate_loop n g1 of Inl e \<Rightarrow> Inl e | Inr g' \<Rightarrow> step g')"
      by (rule Suc.IH)
    also have "simulate_loop n g1 = simulate_loop (Suc n) g"
      using Inr by simp
    finally show ?thesis .
  qed
qed

lemma simulate_loop_spec_iterate: "simulate_loop n g = spec_iterate n g"
proof (induction n)
  case 0
  show ?case by simp
next
  case (Suc n)
  have "simulate_loop (Suc n) g =
          (case simulate_loop n g of Inl e \<Rightarrow> Inl e | Inr g' \<Rightarrow> step g')"
    by (rule simulate_loop_snoc)
  with Suc show ?case by simp
qed

lemma well_formed_grid_a: "well_formed grid_a"
  by (simp add: grid_a_def well_formed_def rectangular_def cells_in_range_def)

lemma well_formed_grid_b: "well_formed grid_b"
  by (simp add: grid_b_def well_formed_def rectangular_def cells_in_range_def)

subsection \<open>The value of one cell after a step\<close>

lemma active_neighbors_rect:
  assumes "rectangular g" "0 \<le> row" "row < height g" "0 \<le> col" "col < width g"
  shows "active_neighbors g (neighbor_coords g row col) = Inr (spec_active_count g row col)"
proof -
  have nb: "neighbor_coords g row col = map Inr (spec_neighbors g row col)"
    using assms(2-5) by (rule neighbor_coords_rect)
  have "active_neighbors g (map Inr (spec_neighbors g row col)) =
          Inr (int (length (filter (\<lambda>(r, c). 4 \<le> val g r c) (spec_neighbors g row col))))"
  proof (rule active_neighbors_Inr)
    fix r c assume "(r, c) \<in> set (spec_neighbors g row col)"
    with assms(2-5) have "0 \<le> r \<and> r < height g \<and> 0 \<le> c \<and> c < width g"
      by (rule spec_neighbors_in_range)
    with assms(1) show "cell_at g r c = Inr (val g r c)"
      by (simp add: cell_at_rect)
  qed
  with nb show ?thesis by (simp add: spec_active_count_def)
qed

lemma step_val:
  assumes "well_formed g" "0 \<le> row" "row < height g" "0 \<le> col" "col < width g"
  shows "\<exists>g'. step g = Inr g' \<and>
           val g' row col = next_value (val g row col) (spec_active_count g row col) \<and>
           cell_at g' row col = Inr (val g' row col)"
proof -
  let ?g' = "\<lparr>width = width g, height = height g, cells = next_cells_of g\<rparr>"
  from assms(1) have rect: "rectangular g" by (simp add: well_formed_def)
  then have st: "step g = Inr ?g'" by (rule step_rect)
  have v: "val ?g' row col = next_value (val g row col) (spec_active_count g row col)"
    using next_cells_of_nth [OF assms(2-5)] by (simp add: val_def)
  from rect have "rectangular ?g'" by (rule rectangular_next)
  then have "cell_at ?g' row col = Inr (val ?g' row col)"
    using assms(2-5) by (intro cell_at_rect) simp_all
  with st v show ?thesis by blast
qed

subsection \<open>The range of the values a step writes, on any grid\<close>

lemma list_index_mem: "list_index xs i = Inr x \<Longrightarrow> x \<in> set xs"
  by (auto simp: list_index_def split: if_splits)

lemma cell_at_mem:
  assumes "cell_at g r c = Inr v"
  shows "\<exists>row \<in> set (cells g). v \<in> set row"
proof (cases "list_index (cells g) r")
  case (Inl e)
  with assms show ?thesis by (simp add: cell_at_def)
next
  case (Inr l)
  with assms have "list_index l c = Inr v" by (simp add: cell_at_def)
  then have "v \<in> set l" by (rule list_index_mem)
  moreover from Inr have "l \<in> set (cells g)" by (rule list_index_mem)
  ultimately show ?thesis by blast
qed

lemma step_cell_in_range:
  assumes "cells_in_range g" "step_cell g row col = Inr y"
  shows "0 \<le> y \<and> y < 7"
proof (cases "cell_at g row col")
  case (Inl e)
  with assms(2) show ?thesis by (simp add: step_cell_def)
next
  case (Inr current)
  then obtain l where "l \<in> set (cells g)" "current \<in> set l"
    using cell_at_mem by blast
  with assms(1) have cur: "0 \<le> current" "current < 7"
    by (auto simp: cells_in_range_def)
  from assms(2) Inr obtain n where "y = next_value current n"
    by (auto simp: step_cell_def split: sum.splits)
  with cur show ?thesis by (simp add: next_value_range)
qed

lemma for_each_mem:
  "for_each body xs = Inr ys \<Longrightarrow> y \<in> set ys \<Longrightarrow> \<exists>x \<in> set xs. body x = Inr y"
proof (induction xs arbitrary: ys)
  case Nil
  then show ?case by simp
next
  case (Cons x xs)
  from Cons.prems(1) obtain z zs
    where z: "body x = Inr z" and zs: "for_each body xs = Inr zs" and ys: "ys = z # zs"
    by (auto split: sum.splits)
  show ?case
  proof (cases "y = z")
    case True
    with z show ?thesis by simp
  next
    case False
    with Cons.prems(2) ys have "y \<in> set zs" by simp
    with Cons.IH [OF zs] show ?thesis by auto
  qed
qed

lemma step_in_range:
  assumes "cells_in_range g" "step g = Inr g'"
  shows "cells_in_range g'"
proof -
  from assms(2) obtain next_cells
    where nc: "for_each (step_row g) (py_range (height g)) = Inr next_cells"
      and g': "cells g' = next_cells"
    by (auto simp: step_def split: sum.splits)
  { fix l v assume "l \<in> set next_cells" "v \<in> set l"
    from for_each_mem [OF nc \<open>l \<in> set next_cells\<close>] obtain row
      where "step_row g row = Inr l" by blast
    then have "for_each (step_cell g row) (py_range (width g)) = Inr l"
      by (simp add: step_row_def)
    from for_each_mem [OF this \<open>v \<in> set l\<close>] obtain col
      where "step_cell g row col = Inr v" by blast
    with assms(1) have "0 \<le> v \<and> v < 7" by (rule step_cell_in_range) }
  with g' show ?thesis by (simp add: cells_in_range_def)
qed

lemma simulate_loop_in_range:
  "cells_in_range g \<Longrightarrow> simulate_loop n g = Inr g' \<Longrightarrow> cells_in_range g'"
proof (induction n arbitrary: g)
  case 0
  then show ?case by simp
next
  case (Suc n)
  from Suc.prems(2) obtain g1 where g1: "step g = Inr g1" and rest: "simulate_loop n g1 = Inr g'"
    by (auto split: sum.splits)
  from Suc.prems(1) g1 have "cells_in_range g1" by (rule step_in_range)
  then show ?case using rest by (rule Suc.IH)
qed

subsection \<open>Rendering\<close>








subsection \<open>The sample grid, stepped\<close>

lemma step_grid_a:
  "step grid_a = Inr \<lparr>width = 3, height = 2, cells = [[1, 4, 6], [4, 2, 4]]\<rparr>"
  by code_simp

lemma simulate_grid_a:
  "simulate grid_a 2 = Inr \<lparr>width = 3, height = 2, cells = [[2, 4, 0], [4, 3, 5]]\<rparr>"
  by code_simp

section \<open>The claims\<close>

text \<open>
  Claim C1. The per-cell transition: for a value in \<open>[0, 7)\<close> and a count in
  \<open>[0, 4]\<close> it is the increment modulo 7 when the count is at least 2, the decrement
  with the non-negative modulo when the count is 0 (band 0 becomes 6), and the value
  itself otherwise, which is the case of exactly one active neighbour. In \<^verbatim>\<open>step\<close> the
  count it is applied to is the number of the four wrapped neighbours whose value is at
  least 4.
\<close>

theorem transition_rule:
  "(0 \<le> current \<and> current < 7 \<and> 0 \<le> active_count \<and> active_count \<le> 4 \<longrightarrow>
      next_value current active_count =
        (if 2 \<le> active_count then (current + 1) mod 7
         else if active_count = 0 then (current - 1) mod 7
         else current) \<and>
      next_value current active_count = spec_next_state current active_count \<and>
      (\<not> 2 \<le> active_count \<and> active_count \<noteq> 0 \<longrightarrow> active_count = 1) \<and>
      0 \<le> next_value current active_count \<and> next_value current active_count < 7) \<and>
   next_value 0 0 = 6 \<and>
   (well_formed g \<and> 0 \<le> row \<and> row < height g \<and> 0 \<le> col \<and> col < width g \<longrightarrow>
      active_neighbors g (neighbor_coords g row col) = Inr (spec_active_count g row col) \<and>
      0 \<le> spec_active_count g row col \<and> spec_active_count g row col \<le> 4 \<and>
      0 \<le> val g row col \<and> val g row col < 7 \<and>
      step_cell g row col = Inr (next_value (val g row col) (spec_active_count g row col)) \<and>
      (\<exists>g'. step g = Inr g' \<and>
         val g' row col = spec_next_state (val g row col) (spec_active_count g row col)))"
proof (intro conjI impI)
  show "next_value 0 0 = 6"
    by (simp add: next_value_def STATE_RANGE_def)
next
  assume a: "0 \<le> current \<and> current < 7 \<and> 0 \<le> active_count \<and> active_count \<le> 4"
  show "next_value current active_count =
        (if 2 \<le> active_count then (current + 1) mod 7
         else if active_count = 0 then (current - 1) mod 7
         else current)"
    by (simp add: next_value_def STATE_RANGE_def)
  from a show "next_value current active_count = spec_next_state current active_count"
    by (simp add: next_value_spec)
  from a show "0 \<le> next_value current active_count"
    by (simp add: next_value_range)
  from a show "next_value current active_count < 7"
    by (simp add: next_value_range)
  assume "\<not> 2 \<le> active_count \<and> active_count \<noteq> 0"
  with a show "active_count = 1" by arith
next
  assume b: "well_formed g \<and> 0 \<le> row \<and> row < height g \<and> 0 \<le> col \<and> col < width g"
  then have wf: "well_formed g" and rc: "0 \<le> row" "row < height g" "0 \<le> col" "col < width g"
    by simp_all
  from wf have rect: "rectangular g" by (simp add: well_formed_def)
  from rect rc
  show "active_neighbors g (neighbor_coords g row col) = Inr (spec_active_count g row col)"
    by (rule active_neighbors_rect)
  show "0 \<le> spec_active_count g row col" "spec_active_count g row col \<le> 4"
    using spec_active_count_bounds [of g row col] by simp_all
  from wf rc have v: "0 \<le> val g row col \<and> val g row col < 7" by (rule val_in_range)
  then show "0 \<le> val g row col" "val g row col < 7" by simp_all
  from rect rc
  show "step_cell g row col = Inr (next_value (val g row col) (spec_active_count g row col))"
    by (rule step_cell_rect)
  from step_val [OF wf rc] obtain g' where "step g = Inr g'"
    "val g' row col = next_value (val g row col) (spec_active_count g row col)"
    by blast
  moreover from v have "next_value (val g row col) (spec_active_count g row col) =
      spec_next_state (val g row col) (spec_active_count g row col)"
    by (simp add: next_value_spec)
  ultimately show "\<exists>g'. step g = Inr g' \<and>
         val g' row col = spec_next_state (val g row col) (spec_active_count g row col)"
    by simp
qed

theorem transition_rule_witness:
  "(0::int) \<le> 5 \<and> (5::int) < 7 \<and> (0::int) \<le> 0 \<and> (0::int) \<le> 4 \<and>
   well_formed grid_a \<and> (0::int) \<le> 1 \<and> 1 < height grid_a \<and> (0::int) \<le> 0 \<and> 0 < width grid_a \<and>
   next_value 5 0 = 4 \<and> spec_next_state 5 0 = 4 \<and>
   active_neighbors grid_a (neighbor_coords grid_a 1 0) = Inr 0 \<and>
   step_cell grid_a 1 0 = Inr 4 \<and>
   (\<exists>g'. step grid_a = Inr g' \<and> val g' 1 0 = 4)"
proof -
  have wf: "well_formed grid_a" by (rule well_formed_grid_a)
  have dims: "height grid_a = 2" "width grid_a = 3" by (simp_all add: grid_a_def)
  have v: "val grid_a 1 0 = 5" by (simp add: val_def grid_a_def)
  have n: "spec_active_count grid_a 1 0 = 0" by code_simp
  have s: "spec_next_state 5 0 = 4" by (simp add: spec_next_state_def)
  from transition_rule [where current = 5 and active_count = 0 and g = grid_a
      and row = 1 and col = 0] wf
  show ?thesis by (simp add: dims v n s)
qed

text \<open>
  Claim C2. The range invariant: whatever grid \<^verbatim>\<open>step\<close> or \<^verbatim>\<open>simulate\<close> returns for a
  grid with all values in \<open>[0, 7)\<close> has all values in \<open>[0, 7)\<close> again, and for a
  well-formed grid they do return one, for any number of steps.
\<close>

theorem range_invariant:
  "(cells_in_range g \<and> step g = Inr g1 \<longrightarrow> cells_in_range g1) \<and>
   (cells_in_range g \<and> simulate g steps = Inr g2 \<longrightarrow> cells_in_range g2) \<and>
   (well_formed g \<longrightarrow>
      (\<exists>g'. step g = Inr g' \<and> cells_in_range g') \<and>
      (\<exists>g'. simulate g steps = Inr g' \<and> cells_in_range g'))"
proof (intro conjI impI)
  assume "cells_in_range g \<and> step g = Inr g1"
  then show "cells_in_range g1" using step_in_range by blast
next
  assume "cells_in_range g \<and> simulate g steps = Inr g2"
  then show "cells_in_range g2"
    unfolding simulate_def using simulate_loop_in_range by blast
next
  assume wf: "well_formed g"
  from step_well_formed [OF wf] show "\<exists>g'. step g = Inr g' \<and> cells_in_range g'"
    by (auto simp: well_formed_def)
  from simulate_loop_well_formed [OF wf, of "nat steps"]
  show "\<exists>g'. simulate g steps = Inr g' \<and> cells_in_range g'"
    unfolding simulate_def by (auto simp: well_formed_def)
qed

theorem range_invariant_witness:
  "cells_in_range grid_a \<and>
   step grid_a = Inr \<lparr>width = 3, height = 2, cells = [[1, 4, 6], [4, 2, 4]]\<rparr> \<and>
   cells_in_range \<lparr>width = 3, height = 2, cells = [[1, 4, 6], [4, 2, 4]]\<rparr> \<and>
   simulate grid_a 2 = Inr \<lparr>width = 3, height = 2, cells = [[2, 4, 0], [4, 3, 5]]\<rparr> \<and>
   cells_in_range \<lparr>width = 3, height = 2, cells = [[2, 4, 0], [4, 3, 5]]\<rparr> \<and>
   well_formed grid_a \<and>
   (\<exists>g'. step grid_a = Inr g' \<and> cells_in_range g') \<and>
   (\<exists>g'. simulate grid_a 2 = Inr g' \<and> cells_in_range g')"
proof -
  have wf: "well_formed grid_a" by (rule well_formed_grid_a)
  then have rng: "cells_in_range grid_a" by (simp add: well_formed_def)
  from range_invariant [where g = grid_a and steps = 2
      and ?g1.0 = "\<lparr>width = 3, height = 2, cells = [[1, 4, 6], [4, 2, 4]]\<rparr>"
      and ?g2.0 = "\<lparr>width = 3, height = 2, cells = [[2, 4, 0], [4, 3, 5]]\<rparr>"]
    wf rng step_grid_a simulate_grid_a
  show ?thesis by simp
qed

text \<open>
  Claim C3. The neighbour resolver yields exactly four coordinate pairs, north, south,
  west and east, each wrapped with the non-negative modulo, so that row 0 has row
  \<open>height - 1\<close> to its north, the last row has row 0 to its south, and likewise for the
  columns; every row index it yields is in \<open>[0, height)\<close> and every column index in
  \<open>[0, width)\<close>.
\<close>

theorem neighbor_wraparound:
  assumes "0 < height g" "0 < width g" "0 \<le> row" "row < height g" "0 \<le> col" "col < width g"
  shows "neighbor_coords g row col =
           [Inr ((row - 1) mod height g, col mod width g),
            Inr ((row + 1) mod height g, col mod width g),
            Inr (row mod height g, (col - 1) mod width g),
            Inr (row mod height g, (col + 1) mod width g)] \<and>
         neighbor_coords g row col =
           [Inr (if row = 0 then height g - 1 else row - 1, col),
            Inr (if row = height g - 1 then 0 else row + 1, col),
            Inr (row, if col = 0 then width g - 1 else col - 1),
            Inr (row, if col = width g - 1 then 0 else col + 1)] \<and>
         (\<forall>x \<in> set (neighbor_coords g row col).
            \<exists>r c. x = Inr (r, c) \<and> 0 \<le> r \<and> r < height g \<and> 0 \<le> c \<and> c < width g)"
proof (intro conjI ballI)
  show first: "neighbor_coords g row col =
           [Inr ((row - 1) mod height g, col mod width g),
            Inr ((row + 1) mod height g, col mod width g),
            Inr (row mod height g, (col - 1) mod width g),
            Inr (row mod height g, (col + 1) mod width g)]"
    using assms(1,2) by (simp add: neighbor_coords_def neighbor_coord_def wrap_def)
  have n: "(row - 1) mod height g = (if row = 0 then height g - 1 else row - 1)"
    using assms(1,3,4) by (simp add: zmod_minus1)
  have s: "(row + 1) mod height g = (if row = height g - 1 then 0 else row + 1)"
    using assms(1,3,4) by simp
  have w: "(col - 1) mod width g = (if col = 0 then width g - 1 else col - 1)"
    using assms(2,5,6) by (simp add: zmod_minus1)
  have e: "(col + 1) mod width g = (if col = width g - 1 then 0 else col + 1)"
    using assms(2,5,6) by simp
  have r0: "row mod height g = row" using assms(3,4) by simp
  have c0: "col mod width g = col" using assms(5,6) by simp
  show "neighbor_coords g row col =
           [Inr (if row = 0 then height g - 1 else row - 1, col),
            Inr (if row = height g - 1 then 0 else row + 1, col),
            Inr (row, if col = 0 then width g - 1 else col - 1),
            Inr (row, if col = width g - 1 then 0 else col + 1)]"
    unfolding first n s w e r0 c0 ..
  fix x assume "x \<in> set (neighbor_coords g row col)"
  then have "x \<in> Inr ` set (spec_neighbors g row col)"
    using assms(3-6) by (simp add: neighbor_coords_rect)
  then obtain r c where x: "x = Inr (r, c)" and mem: "(r, c) \<in> set (spec_neighbors g row col)"
    by auto
  from assms(3-6) mem have "0 \<le> r \<and> r < height g \<and> 0 \<le> c \<and> c < width g"
    by (rule spec_neighbors_in_range)
  with x show "\<exists>r c. x = Inr (r, c) \<and> 0 \<le> r \<and> r < height g \<and> 0 \<le> c \<and> c < width g"
    by simp
qed

theorem neighbor_wraparound_witness:
  "0 < height grid_a \<and> 0 < width grid_a \<and>
   (0::int) \<le> 0 \<and> 0 < height grid_a \<and> (0::int) \<le> 2 \<and> 2 < width grid_a \<and>
   neighbor_coords grid_a 0 2 = [Inr (1, 2), Inr (1, 2), Inr (0, 1), Inr (0, 0)]"
proof -
  have dims: "height grid_a = 2" "width grid_a = 3" by (simp_all add: grid_a_def)
  have h: "0 < height grid_a" "0 < width grid_a" "(0::int) \<le> 0" "0 < height grid_a"
    "(0::int) \<le> 2" "2 < width grid_a"
    by (simp_all add: dims)
  from neighbor_wraparound [OF h]
  have "neighbor_coords grid_a 0 2 =
           [Inr (if (0::int) = 0 then height grid_a - 1 else 0 - 1, 2),
            Inr (if 0 = height grid_a - 1 then 0 else 0 + 1, 2),
            Inr (0, if (2::int) = 0 then width grid_a - 1 else 2 - 1),
            Inr (0, if 2 = width grid_a - 1 then 0 else 2 + 1)]"
    by blast
  then have "neighbor_coords grid_a 0 2 = [Inr (1, 2), Inr (1, 2), Inr (0, 1), Inr (0, 0)]"
    by (simp add: dims)
  with h show ?thesis by blast
qed

text \<open>
  Claim C4. \<^verbatim>\<open>simulate(g, steps)\<close> is the \<open>steps\<close>-fold sequential application of
  \<^verbatim>\<open>step\<close> to \<open>g\<close>, each output being the next input: it equals \<open>spec_iterate\<close>, zero
  steps return \<open>g\<close> itself, one more step is \<^verbatim>\<open>step\<close> applied to the result so far, and
  on a well-formed grid every one of these applications returns a (well-formed) grid.
\<close>

theorem simulate_is_iterated_step:
  "simulate g steps = spec_iterate (nat steps) g \<and>
   simulate g 0 = Inr g \<and>
   (0 \<le> steps \<longrightarrow>
      simulate g (steps + 1) =
        (case simulate g steps of Inl e \<Rightarrow> Inl e | Inr g' \<Rightarrow> step g')) \<and>
   (well_formed g \<longrightarrow> (\<exists>g'. simulate g steps = Inr g' \<and> well_formed g'))"
proof (intro conjI impI)
  show "simulate g steps = spec_iterate (nat steps) g"
    by (simp add: simulate_def simulate_loop_spec_iterate)
  show "simulate g 0 = Inr g"
    by (simp add: simulate_def)
next
  assume "0 \<le> steps"
  then have "nat (steps + 1) = Suc (nat steps)" by simp
  then show "simulate g (steps + 1) =
      (case simulate g steps of Inl e \<Rightarrow> Inl e | Inr g' \<Rightarrow> step g')"
    unfolding simulate_def by (simp only: simulate_loop_snoc)
next
  assume "well_formed g"
  from simulate_loop_well_formed [OF this, of "nat steps"]
  show "\<exists>g'. simulate g steps = Inr g' \<and> well_formed g'"
    unfolding simulate_def by blast
qed

theorem simulate_is_iterated_step_witness:
  "(0::int) \<le> 1 \<and> well_formed grid_a \<and>
   simulate grid_a 1 = spec_iterate (nat 1) grid_a \<and>
   simulate grid_a 0 = Inr grid_a \<and>
   simulate grid_a (1 + 1) = (case simulate grid_a 1 of Inl e \<Rightarrow> Inl e | Inr g' \<Rightarrow> step g') \<and>
   (\<exists>g'. simulate grid_a 1 = Inr g' \<and> well_formed g')"
proof -
  have wf: "well_formed grid_a" by (rule well_formed_grid_a)
  have pos: "(0::int) \<le> 1" by simp
  from simulate_is_iterated_step [of grid_a 1]
  have a: "simulate grid_a 1 = spec_iterate (nat 1) grid_a"
    and b: "simulate grid_a 0 = Inr grid_a"
    and c: "(0::int) \<le> 1 \<longrightarrow> simulate grid_a (1 + 1) =
        (case simulate grid_a 1 of Inl e \<Rightarrow> Inl e | Inr g' \<Rightarrow> step g')"
    and d: "well_formed grid_a \<longrightarrow> (\<exists>g'. simulate grid_a 1 = Inr g' \<and> well_formed g')"
    by blast+
  from c pos have c': "simulate grid_a (1 + 1) =
        (case simulate grid_a 1 of Inl e \<Rightarrow> Inl e | Inr g' \<Rightarrow> step g')" by (rule mp)
  from d wf have d': "\<exists>g'. simulate grid_a 1 = Inr g' \<and> well_formed g'" by (rule mp)
  from pos wf a b c' d' show ?thesis by blast
qed

text \<open>
  Claim C5. On a well-formed grid \<^verbatim>\<open>simulate\<close> returns a grid of the same width and
  height, whose cells are exactly \<open>height\<close> rows of exactly \<open>width\<close> columns, for any
  number of steps.
\<close>

theorem simulate_preserves_dimensions:
  assumes "well_formed g"
  shows "\<exists>g'. simulate g steps = Inr g' \<and>
           width g' = width g \<and> height g' = height g \<and>
           length (cells g') = nat (height g) \<and>
           (\<forall>row \<in> set (cells g'). length row = nat (width g))"
proof -
  from simulate_loop_well_formed [OF assms, of "nat steps"] obtain g'
    where g': "simulate g steps = Inr g'" "well_formed g'"
      "width g' = width g" "height g' = height g"
    unfolding simulate_def by blast
  from g'(2) have "length (cells g') = nat (height g')"
    and "\<forall>row \<in> set (cells g'). length row = nat (width g')"
    by (simp_all add: well_formed_def rectangular_def)
  with g' show ?thesis by simp
qed

theorem simulate_preserves_dimensions_witness:
  "well_formed grid_a \<and>
   (\<exists>g'. simulate grid_a 2 = Inr g' \<and> width g' = 3 \<and> height g' = 2 \<and>
         length (cells g') = 2 \<and> (\<forall>row \<in> set (cells g'). length row = 3))"
proof -
  have wf: "well_formed grid_a" by (rule well_formed_grid_a)
  have dims: "height grid_a = 2" "width grid_a = 3" by (simp_all add: grid_a_def)
  from simulate_preserves_dimensions [OF wf, of 2] wf show ?thesis
    by (simp add: dims)
qed



text \<open>
  Claim C7. On a well-formed grid \<^verbatim>\<open>step\<close> returns a grid, and every read it makes is in
  bounds: for each cell of the grid, the cell itself and each of the four coordinates the
  neighbour generator yields (none of which is an error) index an existing row and an
  existing column of that row.
\<close>

theorem step_total:
  assumes "well_formed g"
  shows "(\<exists>g'. step g = Inr g') \<and>
         (\<forall>row col. 0 \<le> row \<and> row < height g \<and> 0 \<le> col \<and> col < width g \<longrightarrow>
            cell_at g row col = Inr (val g row col) \<and>
            (\<forall>x \<in> set (neighbor_coords g row col).
               \<exists>r c. x = Inr (r, c) \<and>
                 0 \<le> r \<and> r < int (length (cells g)) \<and>
                 0 \<le> c \<and> c < int (length (cells g ! nat r)) \<and>
                 cell_at g r c = Inr (val g r c)))"
proof (intro conjI allI impI ballI)
  from step_well_formed [OF assms] show "\<exists>g'. step g = Inr g'" by blast
next
  fix row col
  assume rc: "0 \<le> row \<and> row < height g \<and> 0 \<le> col \<and> col < width g"
  from assms have rect: "rectangular g" by (simp add: well_formed_def)
  from rect rc show "cell_at g row col = Inr (val g row col)"
    by (simp add: cell_at_rect)
  fix x assume "x \<in> set (neighbor_coords g row col)"
  with rc have "x \<in> Inr ` set (spec_neighbors g row col)"
    by (simp add: neighbor_coords_rect)
  then obtain r c where x: "x = Inr (r, c)" and mem: "(r, c) \<in> set (spec_neighbors g row col)"
    by auto
  from rc have "0 \<le> row" "row < height g" "0 \<le> col" "col < width g" by simp_all
  then have in_r: "0 \<le> r \<and> r < height g \<and> 0 \<le> c \<and> c < width g"
    using mem by (rule spec_neighbors_in_range)
  from rect have len: "length (cells g) = nat (height g)"
    and rows: "\<forall>l \<in> set (cells g). length l = nat (width g)"
    by (simp_all add: rectangular_def)
  from in_r len have "nat r < length (cells g)" by simp
  then have "cells g ! nat r \<in> set (cells g)" by simp
  with rows have "length (cells g ! nat r) = nat (width g)" by blast
  with in_r len rect x
  show "\<exists>r c. x = Inr (r, c) \<and>
          0 \<le> r \<and> r < int (length (cells g)) \<and>
          0 \<le> c \<and> c < int (length (cells g ! nat r)) \<and>
          cell_at g r c = Inr (val g r c)"
    by (simp add: cell_at_rect)
qed

theorem step_total_witness:
  "well_formed grid_a \<and> (\<exists>g'. step grid_a = Inr g') \<and>
   ((0::int) \<le> 1 \<and> 1 < height grid_a \<and> (0::int) \<le> 2 \<and> 2 < width grid_a) \<and>
   cell_at grid_a 1 2 = Inr (val grid_a 1 2) \<and>
   (\<exists>r c. neighbor_coords grid_a 1 2 ! 3 = Inr (r, c) \<and>
      0 \<le> r \<and> r < int (length (cells grid_a)) \<and>
      0 \<le> c \<and> c < int (length (cells grid_a ! nat r)) \<and>
      cell_at grid_a r c = Inr (val grid_a r c))"
proof -
  have wf: "well_formed grid_a" by (rule well_formed_grid_a)
  have rc: "(0::int) \<le> 1 \<and> 1 < height grid_a \<and> (0::int) \<le> 2 \<and> 2 < width grid_a"
    by (simp add: grid_a_def)
  from step_total [OF wf] have ex: "\<exists>g'. step grid_a = Inr g'"
    and reads: "\<forall>row col. 0 \<le> row \<and> row < height grid_a \<and> 0 \<le> col \<and> col < width grid_a \<longrightarrow>
            cell_at grid_a row col = Inr (val grid_a row col) \<and>
            (\<forall>x \<in> set (neighbor_coords grid_a row col).
               \<exists>r c. x = Inr (r, c) \<and>
                 0 \<le> r \<and> r < int (length (cells grid_a)) \<and>
                 0 \<le> c \<and> c < int (length (cells grid_a ! nat r)) \<and>
                 cell_at grid_a r c = Inr (val grid_a r c))"
    by blast+
  from reads rc have here: "cell_at grid_a 1 2 = Inr (val grid_a 1 2)"
    and nbs: "\<forall>x \<in> set (neighbor_coords grid_a 1 2).
      \<exists>r c. x = Inr (r, c) \<and>
        0 \<le> r \<and> r < int (length (cells grid_a)) \<and>
        0 \<le> c \<and> c < int (length (cells grid_a ! nat r)) \<and>
        cell_at grid_a r c = Inr (val grid_a r c)"
    by blast+
  have "length (neighbor_coords grid_a 1 2) = 4" by (simp add: neighbor_coords_def)
  then have "neighbor_coords grid_a 1 2 ! 3 \<in> set (neighbor_coords grid_a 1 2)" by simp
  with nbs have "\<exists>r c. neighbor_coords grid_a 1 2 ! 3 = Inr (r, c) \<and>
        0 \<le> r \<and> r < int (length (cells grid_a)) \<and>
        0 \<le> c \<and> c < int (length (cells grid_a ! nat r)) \<and>
        cell_at grid_a r c = Inr (val grid_a r c)"
    by (rule bspec)
  with wf ex rc here show ?thesis by blast
qed

text \<open>
  Claim C8. In the grid of one cell holding 4, the four neighbours of the cell are the
  cell itself, they are counted four times, and one step gives the grid of one cell
  holding 5.
\<close>

theorem single_cell_grid:
  "neighbor_coords \<lparr>width = 1, height = 1, cells = [[4]]\<rparr> 0 0 =
     [Inr (0, 0), Inr (0, 0), Inr (0, 0), Inr (0, 0)] \<and>
   active_neighbors \<lparr>width = 1, height = 1, cells = [[4]]\<rparr>
     (neighbor_coords \<lparr>width = 1, height = 1, cells = [[4]]\<rparr> 0 0) = Inr 4 \<and>
   step \<lparr>width = 1, height = 1, cells = [[4]]\<rparr> =
     Inr \<lparr>width = 1, height = 1, cells = [[5]]\<rparr>"
  by (simp add: step_def step_row_def step_cell_def py_range_def neighbor_coords_def
      neighbor_coord_def wrap_def cell_at_def list_index_def next_value_def
      ACTIVE_THRESHOLD_def STATE_RANGE_def)

text \<open>
  Claim C9. For every grid, well-formed or not, and every negative \<open>steps\<close>,
  \<^verbatim>\<open>simulate\<close> returns the grid it was given, unchanged, and raises nothing: the loop
  body does not run, as for zero steps.
\<close>

theorem simulate_negative_steps:
  "steps < 0 \<Longrightarrow> simulate g steps = Inr g \<and> simulate g steps = simulate g 0"
  by (simp add: simulate_def)

theorem simulate_negative_steps_witness:
  "(- 3 :: int) < 0 \<and>
   simulate \<lparr>width = 0, height = 5, cells = [[9], []]\<rparr> (- 3) =
     Inr \<lparr>width = 0, height = 5, cells = [[9], []]\<rparr> \<and>
   simulate \<lparr>width = 0, height = 5, cells = [[9], []]\<rparr> (- 3) =
     simulate \<lparr>width = 0, height = 5, cells = [[9], []]\<rparr> 0"
proof -
  have neg: "(- 3 :: int) < 0" by simp
  from simulate_negative_steps [OF neg, of "\<lparr>width = 0, height = 5, cells = [[9], []]\<rparr>"] neg
  show ?thesis by blast
qed

text \<open>
  Claim C10. Locality: when two well-formed grids of the same dimensions hold the same
  value at a coordinate and at each of its four wrapped neighbours, the grids that
  \<^verbatim>\<open>step\<close> returns for them both hold a value at that coordinate, and it is the same
  value: the read of the output cell succeeds in both and gives the same result.
\<close>

theorem step_locality:
  assumes wf1: "well_formed g1" and wf2: "well_formed g2"
    and dims: "width g1 = width g2" "height g1 = height g2"
    and rc: "0 \<le> row" "row < height g1" "0 \<le> col" "col < width g1"
    and here: "cell_at g1 row col = cell_at g2 row col"
    and nbs: "\<forall>x \<in> set (neighbor_coords g1 row col).
                \<forall>r c. x = Inr (r, c) \<longrightarrow> cell_at g1 r c = cell_at g2 r c"
  shows "\<exists>g1' g2' v. step g1 = Inr g1' \<and> step g2 = Inr g2' \<and>
           cell_at g1' row col = Inr v \<and> cell_at g2' row col = Inr v \<and>
           cell_at g1' row col = cell_at g2' row col \<and>
           val g1' row col = v \<and> val g2' row col = v \<and>
           val g1' row col = val g2' row col"
proof -
  from wf1 wf2 have rect1: "rectangular g1" and rect2: "rectangular g2"
    by (simp_all add: well_formed_def)
  from rc dims have rc2: "0 \<le> row" "row < height g2" "0 \<le> col" "col < width g2"
    by simp_all
  have sn: "spec_neighbors g1 row col = spec_neighbors g2 row col"
    using dims by (simp add: spec_neighbors_def)
  have v: "val g1 row col = val g2 row col"
    using here cell_at_rect [OF rect1 rc] cell_at_rect [OF rect2 rc2] by simp
  have agree: "val g1 r c = val g2 r c" if mem: "(r, c) \<in> set (spec_neighbors g1 row col)" for r c
  proof -
    from rc mem have in1: "0 \<le> r \<and> r < height g1 \<and> 0 \<le> c \<and> c < width g1"
      by (rule spec_neighbors_in_range)
    with dims have in2: "0 \<le> r \<and> r < height g2 \<and> 0 \<le> c \<and> c < width g2" by simp
    from mem have "Inr (r, c) \<in> set (neighbor_coords g1 row col)"
      using rc by (simp add: neighbor_coords_rect)
    with nbs have "cell_at g1 r c = cell_at g2 r c" by blast
    moreover from rect1 in1 have "cell_at g1 r c = Inr (val g1 r c)" by (simp add: cell_at_rect)
    moreover from rect2 in2 have "cell_at g2 r c = Inr (val g2 r c)" by (simp add: cell_at_rect)
    ultimately show ?thesis by simp
  qed
  have "filter (\<lambda>(r, c). 4 \<le> val g1 r c) (spec_neighbors g1 row col) =
        filter (\<lambda>(r, c). 4 \<le> val g2 r c) (spec_neighbors g1 row col)"
    by (rule filter_cong) (auto simp: agree)
  with sn have cnt: "spec_active_count g1 row col = spec_active_count g2 row col"
    by (simp add: spec_active_count_def)
  from step_val [OF wf1 rc] obtain g1' where s1: "step g1 = Inr g1'"
    "val g1' row col = next_value (val g1 row col) (spec_active_count g1 row col)"
    "cell_at g1' row col = Inr (val g1' row col)" by blast
  from step_val [OF wf2 rc2] obtain g2' where s2: "step g2 = Inr g2'"
    "val g2' row col = next_value (val g2 row col) (spec_active_count g2 row col)"
    "cell_at g2' row col = Inr (val g2' row col)" by blast
  from s1(2) s2(2) v cnt have e: "val g2' row col = val g1' row col" by simp
  show ?thesis
  proof (intro exI conjI)
    show "step g1 = Inr g1'" by (rule s1(1))
    show "step g2 = Inr g2'" by (rule s2(1))
    show "cell_at g1' row col = Inr (val g1' row col)" by (rule s1(3))
    show "cell_at g2' row col = Inr (val g1' row col)" using s2(3) e by simp
    show "cell_at g1' row col = cell_at g2' row col" using s1(3) s2(3) e by simp
    show "val g1' row col = val g1' row col" ..
    show "val g2' row col = val g1' row col" by (rule e)
    show "val g1' row col = val g2' row col" using e by simp
  qed
qed

theorem step_locality_witness:
  "well_formed grid_a \<and> well_formed grid_b \<and>
   width grid_a = width grid_b \<and> height grid_a = height grid_b \<and>
   (0::int) \<le> 0 \<and> 0 < height grid_a \<and> (0::int) \<le> 0 \<and> 0 < width grid_a \<and>
   cell_at grid_a 0 0 = cell_at grid_b 0 0 \<and>
   neighbor_coords grid_a 0 0 = [Inr (1, 0), Inr (1, 0), Inr (0, 2), Inr (0, 1)] \<and>
   cell_at grid_a 1 0 = cell_at grid_b 1 0 \<and>
   cell_at grid_a 0 2 = cell_at grid_b 0 2 \<and>
   cell_at grid_a 0 1 = cell_at grid_b 0 1 \<and>
   grid_a \<noteq> grid_b \<and>
   (\<exists>g1' g2'. step grid_a = Inr g1' \<and> step grid_b = Inr g2' \<and>
      cell_at g1' 0 0 = Inr 1 \<and> cell_at g2' 0 0 = Inr 1 \<and>
      val g1' 0 0 = 1 \<and> val g2' 0 0 = 1)"
proof -
  have wfa: "well_formed grid_a" by (rule well_formed_grid_a)
  have wfb: "well_formed grid_b" by (rule well_formed_grid_b)
  have dims: "width grid_a = width grid_b" "height grid_a = height grid_b"
    by (simp_all add: grid_a_def grid_b_def)
  have rc: "(0::int) \<le> 0" "0 < height grid_a" "(0::int) \<le> 0" "0 < width grid_a"
    by (simp_all add: grid_a_def)
  have here: "cell_at grid_a 0 0 = cell_at grid_b 0 0"
    by (simp add: cell_at_def list_index_def grid_a_def grid_b_def)
  have nb: "neighbor_coords grid_a 0 0 = [Inr (1, 0), Inr (1, 0), Inr (0, 2), Inr (0, 1)]"
    by (simp add: neighbor_coords_def neighbor_coord_def wrap_def grid_a_def)
  have eqs: "cell_at grid_a 1 0 = cell_at grid_b 1 0"
    "cell_at grid_a 0 2 = cell_at grid_b 0 2"
    "cell_at grid_a 0 1 = cell_at grid_b 0 1"
    by (simp_all add: cell_at_def list_index_def grid_a_def grid_b_def)
  have nbs: "\<forall>x \<in> set (neighbor_coords grid_a 0 0).
      \<forall>r c. x = Inr (r, c) \<longrightarrow> cell_at grid_a r c = cell_at grid_b r c"
    unfolding nb using eqs by auto
  have ne: "grid_a \<noteq> grid_b" by (simp add: grid_a_def grid_b_def)
  from step_locality [OF wfa wfb dims rc here nbs] obtain g1' g2' v
    where s1: "step grid_a = Inr g1'" and s2: "step grid_b = Inr g2'"
      and c1: "cell_at g1' 0 0 = Inr v" and c2: "cell_at g2' 0 0 = Inr v"
      and v1: "val g1' 0 0 = v" and v2: "val g2' 0 0 = v"
    by blast
  from s1 step_grid_a
  have "g1' = \<lparr>width = 3, height = 2, cells = [[1, 4, 6], [4, 2, 4]]\<rparr>" by simp
  then have "val g1' 0 0 = 1" by (simp add: val_def)
  with v1 have "v = 1" by simp
  with s1 s2 c1 c2 v1 v2
  have "\<exists>g1' g2'. step grid_a = Inr g1' \<and> step grid_b = Inr g2' \<and>
      cell_at g1' 0 0 = Inr 1 \<and> cell_at g2' 0 0 = Inr 1 \<and>
      val g1' 0 0 = 1 \<and> val g2' 0 0 = 1"
    by auto
  with wfa wfb dims rc here nb eqs ne show ?thesis by blast
qed

end
